theory Spec2Isabelle
  imports Complex_Main
begin

unbundle bit_operations_syntax

section \<open>Data model\<close>

text \<open>
  The two scripts of the repository, \<^verbatim>\<open>epd-dither-resize-spectra6.py\<close> and
  \<^verbatim>\<open>scripts/dither.py\<close>, work on Pillow images. A colour is a triple of Python
  integers. An image is its size together with the pixel access object that
  \<^verbatim>\<open>Image.load()\<close> returns, a store that is read and written at a coordinate pair
  \<^verbatim>\<open>pixels[x, y]\<close>. Every exception of the source is a value of \<open>error\<close>.
\<close>

type_synonym rgb = "int \<times> int \<times> int"

datatype error = ValueError | IndexError | AssertionError | RuntimeError | ZeroDivisionError

record image =
  width :: nat
  height :: nat
  pixel_data :: "nat \<times> nat \<Rightarrow> rgb"

section \<open>The constant tables of \<^verbatim>\<open>epd-dither-resize-spectra6.py\<close>\<close>

definition SPECTRA6_REAL_WORD_RGB :: "rgb list" where
  "SPECTRA6_REAL_WORD_RGB =
     [(25, 30, 33), (232, 232, 232), (239, 222, 68), (178, 19, 24), (33, 87, 186), (18, 95, 32)]"

definition SPECTRA6_DEVICE_RGB :: "rgb list" where
  "SPECTRA6_DEVICE_RGB =
     [(0, 0, 0), (255, 255, 255), (255, 255, 0), (255, 0, 0), (0, 0, 255), (0, 255, 0)]"

definition SPECTRA6_DEVICE_INDEX_TO_RAW :: "int list" where
  "SPECTRA6_DEVICE_INDEX_TO_RAW = [0, 1, 2, 3, 5, 6]"

section \<open>The packing loop (lines 190 to 203)\<close>

text \<open>
  \<^verbatim>\<open>list.index(v)\<close>: the position of the first element equal to \<open>v\<close>; Python raises
  ValueError when there is none, here \<open>None\<close>.
\<close>

fun list_index :: "'a list \<Rightarrow> 'a \<Rightarrow> nat option" where
  "list_index [] v = None"
| "list_index (x # xs) v = (if x = v then Some 0 else map_option Suc (list_index xs v))"

text \<open>
  A \<^verbatim>\<open>for\<close> loop whose body may raise: the body is run on the elements in order, and
  the first exception ends the loop.
\<close>

fun for_each :: "'a list \<Rightarrow> ('a \<Rightarrow> 's \<Rightarrow> error + 's) \<Rightarrow> 's \<Rightarrow> error + 's" where
  "for_each [] body s = Inr s"
| "for_each (x # xs) body s =
     (case body x s of Inl e \<Rightarrow> Inl e | Inr s' \<Rightarrow> for_each xs body s')"

text \<open>
  The variables the loop changes: the pixel store of \<^verbatim>\<open>quantized_image\<close> (each pixel
  is overwritten with its device colour), \<^verbatim>\<open>raw_pending\<close> and \<^verbatim>\<open>raw_bytes\<close>.
\<close>

record pack_state =
  pixels :: "nat \<times> nat \<Rightarrow> rgb"
  raw_pending :: int
  raw_bytes :: "int list"

text \<open>\<^verbatim>\<open>bytearray.append(v)\<close> raises ValueError unless \<open>0 \<le> v < 256\<close>.\<close>

definition bytearray_append :: "int list \<Rightarrow> int \<Rightarrow> error + int list" where
  "bytearray_append bs v = (if 0 \<le> v \<and> v < 256 then Inr (bs @ [v]) else Inl ValueError)"

text \<open>
  The body of the inner loop, for the pixel at column \<open>x\<close> of row \<open>y\<close>. The three tables
  are parameters; the script passes its three constants. A position beyond the end of
  a list raises IndexError (the index is never negative).
\<close>

definition pack_pixel ::
  "rgb list \<Rightarrow> rgb list \<Rightarrow> int list \<Rightarrow> nat \<Rightarrow> nat \<Rightarrow> pack_state \<Rightarrow> error + pack_state" where
  "pack_pixel palette device_rgb index_to_raw y x s =
     (case list_index palette (pixels s (x, y)) of
        None \<Rightarrow> Inl ValueError
      | Some index \<Rightarrow>
          if length device_rgb \<le> index then Inl IndexError
          else let s1 = s\<lparr>pixels := (pixels s)((x, y) := device_rgb ! index)\<rparr> in
          if length index_to_raw \<le> index then Inl IndexError
          else let raw_value = index_to_raw ! index in
          if \<not> raw_value < 8 then Inl AssertionError
          else if x AND 1 = 0 then Inr (s1\<lparr>raw_pending := raw_value\<rparr>)
          else (case bytearray_append (raw_bytes s1) (push_bit 4 (raw_pending s1) OR raw_value) of
                  Inl e \<Rightarrow> Inl e
                | Inr bs \<Rightarrow> Inr (s1\<lparr>raw_bytes := bs\<rparr>)))"

definition pack_row ::
  "rgb list \<Rightarrow> rgb list \<Rightarrow> int list \<Rightarrow> nat \<Rightarrow> nat \<Rightarrow> pack_state \<Rightarrow> error + pack_state" where
  "pack_row palette device_rgb index_to_raw w y =
     for_each (rev [0..<w]) (pack_pixel palette device_rgb index_to_raw y)"

text \<open>
  The whole loop on an image: rows \<open>height - 1\<close> down to \<open>0\<close>, in each row columns
  \<open>width - 1\<close> down to \<open>0\<close>, from \<^verbatim>\<open>raw_pending = 0\<close> and an empty \<^verbatim>\<open>raw_bytes\<close>.
\<close>

definition pack_loop :: "rgb list \<Rightarrow> rgb list \<Rightarrow> int list \<Rightarrow> image \<Rightarrow> error + pack_state" where
  "pack_loop palette device_rgb index_to_raw im =
     for_each (rev [0..<height im]) (pack_row palette device_rgb index_to_raw (width im))
       \<lparr>pixels = pixel_data im, raw_pending = 0, raw_bytes = []\<rparr>"

text \<open>The bytes written to the raw file.\<close>

definition pack :: "rgb list \<Rightarrow> rgb list \<Rightarrow> int list \<Rightarrow> image \<Rightarrow> error + int list" where
  "pack palette device_rgb index_to_raw im =
     (case pack_loop palette device_rgb index_to_raw im of
        Inl e \<Rightarrow> Inl e
      | Inr s \<Rightarrow> Inr (raw_bytes s))"

text \<open>
  The image whose pixel at column \<open>x\<close> of row \<open>y\<close> has the palette colour of index
  \<open>rows ! y ! x\<close>: what quantisation followed by \<^verbatim>\<open>convert("RGB")\<close> hands to the loop
  for the index grid \<open>rows\<close>.
\<close>

definition grid_image :: "rgb list \<Rightarrow> nat \<Rightarrow> nat \<Rightarrow> nat list list \<Rightarrow> image" where
  "grid_image palette w h rows =
     \<lparr>width = w, height = h, pixel_data = (\<lambda>(x, y). palette ! (rows ! y ! x))\<rparr>"

text \<open>
  Two properties of the image handed to the loop. \<open>in_palette\<close>: every pixel has a
  colour of the palette, as after quantisation. \<open>uses_raw\<close>: some pixel is looked up to
  the raw value \<open>v\<close>.
\<close>

definition in_palette :: "rgb list \<Rightarrow> image \<Rightarrow> bool" where
  "in_palette palette im \<longleftrightarrow>
     (\<forall>y<height im. \<forall>x<width im. pixel_data im (x, y) \<in> set palette)"

definition uses_raw :: "rgb list \<Rightarrow> int list \<Rightarrow> image \<Rightarrow> int \<Rightarrow> bool" where
  "uses_raw palette index_to_raw im v \<longleftrightarrow>
     (\<exists>y<height im. \<exists>x<width im.
        case list_index palette (pixel_data im (x, y)) of
          None \<Rightarrow> False
        | Some index \<Rightarrow> index_to_raw ! index = v)"

section \<open>\<^verbatim>\<open>scripts/dither.py\<close>: the palette argument\<close>

subsection \<open>The string operations of Python that \<^verbatim>\<open>parse_palette\<close> calls\<close>



text \<open>
  \<^verbatim>\<open>s.split(sep)\<close> for a separator of one character: the pieces between the
  separators, empty pieces included, so at least one piece.
\<close>

fun split :: "char \<Rightarrow> string \<Rightarrow> string list" where
  "split sep [] = [[]]"
| "split sep (c # cs) =
     (if c = sep then [] # split sep cs
      else (case split sep cs of [] \<Rightarrow> [[c]] | p # ps \<Rightarrow> (c # p) # ps))"





subsection \<open>\<^verbatim>\<open>parse_palette\<close> (lines 32 to 52)\<close>



subsection \<open>What the claim about \<^verbatim>\<open>parse_palette\<close> says of a palette string\<close>





subsection \<open>\<^verbatim>\<open>build_palette_table\<close> (lines 55 to 71)\<close>

text \<open>
  The table has 256 colours, flattened to 768 numbers. A list of more than 256 colours
  is cut to its first 256; a shorter one is filled up with copies of its first colour,
  and \<^verbatim>\<open>colors[0]\<close> raises IndexError when the list is empty.
\<close>

definition flatten :: "rgb list \<Rightarrow> int list" where
  "flatten colors = concat (map (\<lambda>(r, g, b). [r, g, b]) colors)"

definition build_palette_table :: "rgb list \<Rightarrow> error + int list" where
  "build_palette_table colors =
     (let max_colors = 256;
          colors1 = (if length colors > max_colors then take max_colors colors else colors)
      in case (if length colors1 < max_colors
               then (case colors1 of
                       [] \<Rightarrow> Inl IndexError
                     | first # _ \<Rightarrow>
                         Inr (colors1 @ replicate (max_colors - length colors1) first))
               else Inr colors1) of
           Inl e \<Rightarrow> Inl e
         | Inr colors2 \<Rightarrow>
             let flat = flatten colors2 in
             if length flat \<noteq> 768 then Inl RuntimeError else Inr flat)"

text \<open>
  The palette of \<^verbatim>\<open>epd-dither-resize-spectra6.py\<close> (lines 170 to 173): the six colours
  flattened, then the first colour 250 times.
\<close>

definition spectra6_palette :: "int list" where
  "spectra6_palette =
     flatten SPECTRA6_REAL_WORD_RGB
       @ concat (replicate 250 (case SPECTRA6_REAL_WORD_RGB ! 0 of (r, g, b) \<Rightarrow> [r, g, b]))"

section \<open>The palette quantiser\<close>

text \<open>
  Both scripts hand the 768 numbers to \<^verbatim>\<open>putpalette\<close> and call
  \<^verbatim>\<open>quantize(dither=..., palette=...)\<close> and \<^verbatim>\<open>convert("RGB")\<close> of Pillow, whose code is
  not part of the repository. Section 4.2 of the specification describes the
  quantiser, and the definitions of this section are written from that description.
\<close>

text \<open>
  Modelled from the spec: the palette that \<^verbatim>\<open>putpalette\<close> stores, which is missing from
  the sources. The flat table read back three numbers at a time; position \<open>i\<close> of the
  result is the \<open>canonical palette index\<close> \<open>i\<close>.
\<close>

fun putpalette :: "int list \<Rightarrow> rgb list" where
  "putpalette (r # g # b # rest) = (r, g, b) # putpalette rest"
| "putpalette _ = []"

text \<open>
  Modelled from the spec: the nearest colour search of the quantiser, which is missing
  from the sources. \<open>find the palette entry minimizing squared Euclidean distance in
  RGB space (ties broken by lowest palette index)\<close>, by a \<open>brute-force linear scan over
  the palette\<close>. The colour searched for is a working value, which dithering makes a
  fraction, so its channels are rationals. The scan keeps the best position and its
  distance and replaces them only by a strictly smaller distance.
\<close>

type_synonym working = "rat \<times> rat \<times> rat"

definition to_working :: "rgb \<Rightarrow> working" where
  "to_working c = (case c of (r, g, b) \<Rightarrow> (of_int r, of_int g, of_int b))"

definition dist2 :: "working \<Rightarrow> rgb \<Rightarrow> rat" where
  "dist2 v c =
     (case (v, c) of
        ((r, g, b), (pr, pg, pb)) \<Rightarrow>
          (r - of_int pr) ^ 2 + (g - of_int pg) ^ 2 + (b - of_int pb) ^ 2)"

fun nearest_scan :: "rgb list \<Rightarrow> working \<Rightarrow> nat \<Rightarrow> nat \<Rightarrow> rat \<Rightarrow> nat" where
  "nearest_scan [] v i best best_dist = best"
| "nearest_scan (c # cs) v i best best_dist =
     (if dist2 v c < best_dist then nearest_scan cs v (Suc i) i (dist2 v c)
      else nearest_scan cs v (Suc i) best best_dist)"

definition nearest_index :: "rgb list \<Rightarrow> working \<Rightarrow> nat" where
  "nearest_index palette v =
     (case palette of [] \<Rightarrow> 0 | c # cs \<Rightarrow> nearest_scan cs v 1 0 (dist2 v c))"

text \<open>
  Modelled from the spec: \<open>quantize(image, palette, dither_enabled)\<close>, which is missing
  from the sources. The pixels are visited in raster order, rows \<open>0\<close> to \<open>height - 1\<close>
  and in each row columns \<open>0\<close> to \<open>width - 1\<close>. The working copy starts as the image.
  At a pixel the nearest palette entry of its working value is recorded; the error is
  the working value minus the chosen colour; with dithering the error is added to the
  right neighbour times 7/16, the neighbour below left times 3/16, below times 5/16 and
  below right times 1/16, neighbours outside the image are skipped, and each channel of
  a neighbour is clamped to 0..255 after the sum. Without dithering nothing is written
  to a neighbour. The RGB image has, at every pixel, the colour of the chosen entry.
\<close>

record pixel_grid =
  grid_width :: nat
  grid_height :: nat
  cells :: "nat \<times> nat \<Rightarrow> nat"

record quantize_state =
  work :: "nat \<times> nat \<Rightarrow> working"
  indices :: "nat \<times> nat \<Rightarrow> nat"

definition clamp :: "rat \<Rightarrow> rat" where
  "clamp v = max 0 (min 255 v)"

definition diffuse ::
  "nat \<Rightarrow> nat \<Rightarrow> nat \<Rightarrow> nat \<Rightarrow> working \<Rightarrow> int \<times> int \<times> rat \<Rightarrow>
     (nat \<times> nat \<Rightarrow> working) \<Rightarrow> (nat \<times> nat \<Rightarrow> working)" where
  "diffuse w h x y err n wk =
     (case (n, err) of
        ((dx, dy, k), (er, eg, eb)) \<Rightarrow>
          let nx = int x + dx; ny = int y + dy in
          if 0 \<le> nx \<and> nx < int w \<and> 0 \<le> ny \<and> ny < int h
          then (case wk (nat nx, nat ny) of
                  (r, g, b) \<Rightarrow>
                    wk((nat nx, nat ny) :=
                         (clamp (r + k * er), clamp (g + k * eg), clamp (b + k * eb))))
          else wk)"

definition quantize_pixel ::
  "rgb list \<Rightarrow> bool \<Rightarrow> nat \<Rightarrow> nat \<Rightarrow> nat \<Rightarrow> nat \<Rightarrow> quantize_state \<Rightarrow> quantize_state" where
  "quantize_pixel palette dither_enabled w h y x s =
     (let v = work s (x, y);
          i = nearest_index palette v;
          err = (case (v, to_working (palette ! i)) of
                   ((r, g, b), (cr, cg, cb)) \<Rightarrow> (r - cr, g - cg, b - cb));
          s1 = s\<lparr>indices := (indices s)((x, y) := i)\<rparr>
      in if dither_enabled
         then s1\<lparr>work := fold (diffuse w h x y err)
                            [(1, 0, 7 / 16), (- 1, 1, 3 / 16), (0, 1, 5 / 16), (1, 1, 1 / 16)]
                            (work s1)\<rparr>
         else s1)"

definition quantize :: "image \<Rightarrow> rgb list \<Rightarrow> bool \<Rightarrow> pixel_grid \<times> image" where
  "quantize im palette dither_enabled =
     (let s = fold (\<lambda>y. fold (quantize_pixel palette dither_enabled (width im) (height im) y)
                           [0..<width im])
                [0..<height im]
                \<lparr>work = (\<lambda>c. to_working (pixel_data im c)), indices = (\<lambda>c. 0)\<rparr>
      in (\<lparr>grid_width = width im, grid_height = height im, cells = indices s\<rparr>,
          \<lparr>width = width im, height = height im,
             pixel_data = (\<lambda>c. palette ! indices s c)\<rparr>))"

section \<open>The geometry of \<^verbatim>\<open>epd-dither-resize-spectra6.py\<close> (lines 114 to 164)\<close>

subsection \<open>The imaging operations the script calls\<close>

text \<open>
  The script rotates, resizes, pastes, crops and pads with Pillow, whose code is not
  part of the repository. Images are the RGB images of the specification's data model;
  Pillow's other modes are not modelled. The operations are modelled on pixels where
  the specification or the call fixes what they do, and the resampling filter of
  \<^verbatim>\<open>resize\<close>, which it does not fix, is a parameter \<open>rs\<close>: \<open>rs im w h\<close> are the pixels of \<open>im\<close>
  resampled to the size \<open>w\<close> by \<open>h\<close>.
\<close>

type_synonym resampler = "image \<Rightarrow> nat \<Rightarrow> nat \<Rightarrow> nat \<times> nat \<Rightarrow> rgb"




text \<open>
  Modelled from the spec: \<^verbatim>\<open>Image.rotate(180)\<close>, missing from the sources (\<open>rotate the
  image 180 degrees\<close>): the same size, every pixel taken from the opposite position.
\<close>

definition rotate_180 :: "image \<Rightarrow> image" where
  "rotate_180 im =
     im\<lparr>pixel_data := (\<lambda>(x, y). pixel_data im (width im - 1 - x, height im - 1 - y))\<rparr>"

text \<open>
  Modelled from the spec: \<^verbatim>\<open>Image.rotate(angle, expand=True)\<close> for the two angles the
  script accepts, missing from the sources (\<open>rotate by rotate_angle with output canvas
  expanded to fit the rotated content exactly\<close>): width and height change places; the
  rotation is counter-clockwise.
\<close>

datatype rotate_angle = Rotate90 | Rotate270

definition rotate_expand :: "rotate_angle \<Rightarrow> image \<Rightarrow> image" where
  "rotate_expand angle im =
     \<lparr>width = height im, height = width im,
      pixel_data =
        (case angle of
           Rotate90 \<Rightarrow> (\<lambda>(x, y). pixel_data im (width im - 1 - y, x))
         | Rotate270 \<Rightarrow> (\<lambda>(x, y). pixel_data im (y, height im - 1 - x)))\<rparr>"

text \<open>
  Modelled from the spec: \<^verbatim>\<open>Image.resize(size)\<close>, \<^verbatim>\<open>Image.new("RGB", size, color)\<close>,
  \<^verbatim>\<open>Image.paste(im, (left, top))\<close> and \<^verbatim>\<open>Image.crop(box)\<close>, missing from the sources. A
  new image has the colour everywhere. Pasting keeps the size of the destination and
  replaces the pixels that the pasted image covers when its top left corner is put at
  \<open>(left, top)\<close>; what falls outside the destination is lost (\<open>any overflow clipped by the
  canvas bounds\<close>). Cropping to the box \<open>(left, upper, right, lower)\<close> gives the pixels
  from \<open>(left, upper)\<close> on, \<open>right - left\<close> wide and \<open>lower - upper\<close> high.
\<close>

definition resize :: "resampler \<Rightarrow> image \<Rightarrow> nat \<times> nat \<Rightarrow> image" where
  "resize rs im new_size =
     (case new_size of (w, h) \<Rightarrow> \<lparr>width = w, height = h, pixel_data = rs im w h\<rparr>)"

definition new_image :: "nat \<times> nat \<Rightarrow> rgb \<Rightarrow> image" where
  "new_image new_size color =
     (case new_size of (w, h) \<Rightarrow> \<lparr>width = w, height = h, pixel_data = (\<lambda>c. color)\<rparr>)"

definition paste :: "image \<Rightarrow> image \<Rightarrow> int \<times> int \<Rightarrow> image" where
  "paste dst src offset =
     (case offset of
        (left, upper) \<Rightarrow>
          dst\<lparr>pixel_data :=
                (\<lambda>(x, y).
                   let sx = int x - left; sy = int y - upper in
                   if 0 \<le> sx \<and> sx < int (width src) \<and> 0 \<le> sy \<and> sy < int (height src)
                   then pixel_data src (nat sx, nat sy)
                   else pixel_data dst (x, y))\<rparr>)"

definition crop :: "image \<Rightarrow> int \<times> int \<times> int \<times> int \<Rightarrow> image" where
  "crop im box =
     (case box of
        (left, upper, right, lower) \<Rightarrow>
          \<lparr>width = nat (right - left), height = nat (lower - upper),
           pixel_data = (\<lambda>(x, y). pixel_data im (nat (int x + left), nat (int y + upper)))\<rparr>)"

text \<open>
  The script computes its ratios in binary floating point. Here a Python float is an
  exact rational: \<open>a / b\<close> is the quotient and \<open>int(x)\<close> drops the fraction, towards zero.
  The rounding of binary floating point is left out: where a rounded quotient or product
  lies on the other side of a whole number than the exact one (\<open>49 * (1 / 49)\<close> is below
  1 in binary floating point), the script's \<open>int(x)\<close> and \<open>trunc\<close> differ by one.
\<close>

definition trunc :: "rat \<Rightarrow> int" where
  "trunc q = (if 0 \<le> q then \<lfloor>q\<rfloor> else \<lceil>q\<rceil>)"

text \<open>
  Modelled from the spec: \<^verbatim>\<open>ImageOps.pad(image, size, color, centering=(0.5, 0.5))\<close>,
  missing from the sources. Section 4.1, mode \<open>cut\<close>: \<open>compute whichever of
  width-padding or height-padding is needed so the source aspect ratio, after adding
  padding, equals the target aspect ratio; the padding amount added to the shorter side
  uses floor division for "before" padding and remainder for "after" padding (before =
  delta//2, after = delta-before); pad the (uncropped) image directly to (target_w,
  target_h) with white fill, centered\<close>, and the glossary: \<open>add border padding so the
  source's aspect ratio matches the target exactly before resizing\<close>. \<open>pad_delta\<close> is
  the padding needed on the width and on the height, one of them zero; \<open>add_border\<close>
  puts the image on a canvas of the colour that is larger by the four amounts left,
  top, right and bottom (\<open>top\<close> and \<open>bottom\<close> are written \<open>upper\<close> and \<open>lower\<close>).
\<close>

definition pad_delta :: "nat \<Rightarrow> nat \<Rightarrow> nat \<Rightarrow> nat \<Rightarrow> int \<times> int" where
  "pad_delta w h target_w target_h =
     (if target_w * h \<le> w * target_h
      then (0, trunc (of_nat (w * target_h) / of_nat target_w - of_nat h))
      else (trunc (of_nat (h * target_w) / of_nat target_h - of_nat w), 0))"

definition add_border :: "image \<Rightarrow> int \<times> int \<times> int \<times> int \<Rightarrow> rgb \<Rightarrow> image" where
  "add_border im border color =
     (case border of
        (left, upper, right, lower) \<Rightarrow>
          paste (new_image (nat (int (width im) + left + right),
                            nat (int (height im) + upper + lower)) color)
            im (left, upper))"

definition pad :: "resampler \<Rightarrow> image \<Rightarrow> nat \<times> nat \<Rightarrow> rgb \<Rightarrow> image" where
  "pad rs im target_size color =
     (case target_size of
        (target_w, target_h) \<Rightarrow>
          (case pad_delta (width im) (height im) target_w target_h of
             (dw, dh) \<Rightarrow>
               resize rs
                 (add_border im (dw div 2, dh div 2, dw - dw div 2, dh - dh div 2) color)
                 (target_w, target_h)))"

subsection \<open>Fitting to the target size\<close>



text \<open>
  Mode \<open>cut\<close>, the two branches (lines 148 to 157): the tuple \<^verbatim>\<open>padding\<close> and the box.
  The comparison of the two quotients is the comparison of the cross products.
\<close>

definition cut_fitting ::
  "nat \<Rightarrow> nat \<Rightarrow> nat \<Rightarrow> nat \<Rightarrow> error + ((int \<times> int \<times> int \<times> int) \<times> (int \<times> int \<times> int \<times> int))" where
  "cut_fitting w h target_width target_height =
     (if h = 0 \<or> target_height = 0 then Inl ZeroDivisionError
      else if (of_nat target_width / of_nat target_height :: rat) \<le> of_nat w / of_nat h then
        let delta_width = trunc (of_nat (h * target_width) / of_nat target_height - of_nat w);
            padding = (delta_width div 2, 0, delta_width - delta_width div 2, 0);
            box = (0, 0, int w, int h)
        in Inr (padding, box)
      else if target_width = 0 then Inl ZeroDivisionError
      else
        let delta_height = trunc (of_nat (w * target_height) / of_nat target_width - of_nat h);
            padding = (0, delta_height div 2, 0, delta_height - delta_height div 2);
            box = (0, 0, int w, int h)
        in Inr (padding, box))"

text \<open>
  Mode \<open>cut\<close>, the call (lines 159 to 164): the image cropped to the box is padded to
  the target size with white. The tuple \<^verbatim>\<open>padding\<close> is not passed on.
\<close>

definition fit_cut :: "resampler \<Rightarrow> image \<Rightarrow> nat \<Rightarrow> nat \<Rightarrow> nat \<Rightarrow> nat \<Rightarrow> error + image" where
  "fit_cut rs input_image w h target_width target_height =
     (case cut_fitting w h target_width target_height of
        Inl e \<Rightarrow> Inl e
      | Inr (padding, box) \<Rightarrow>
          Inr (pad rs (crop input_image box) (target_width, target_height) (255, 255, 255)))"


subsection \<open>The whole conversion\<close>



section \<open>Properties of the packing loop\<close>

subsection \<open>One step\<close>

lemma nibble_or_add:
  fixes p r :: int
  assumes "0 \<le> r" "r < 16"
  shows "push_bit 4 p OR r = 16 * p + r"
proof -
  have r: "take_bit 4 r = r"
    using assms by (simp add: take_bit_int_eq_self)
  have "push_bit 4 p AND take_bit 4 r = 0"
    by (auto simp: bit_eq_iff bit_simps)
  then have "push_bit 4 p AND r = 0"
    by (simp only: r)
  then have "push_bit 4 p + r = push_bit 4 p OR r"
    by (rule disjunctive_add_eq_or)
  then show ?thesis
    by (simp add: push_bit_eq_mult)
qed



text \<open>When a step returns, and when its assertion fails.\<close>

lemma pack_pixel_ok:
  assumes "list_index P (pixels s (x, y)) = Some i" "i < length D" "i < length M"
    and "0 \<le> M ! i" "M ! i < 8" "0 \<le> raw_pending s" "raw_pending s < 8"
  shows "pack_pixel P D M y x s =
           Inr (if even x
                then s\<lparr>pixels := (pixels s)((x, y) := D ! i), raw_pending := M ! i\<rparr>
                else s\<lparr>pixels := (pixels s)((x, y) := D ! i),
                       raw_bytes := raw_bytes s @ [16 * raw_pending s + M ! i]\<rparr>)"
proof -
  have "push_bit 4 (raw_pending s) OR M ! i = 16 * raw_pending s + M ! i"
    using assms by (simp add: nibble_or_add)
  then show ?thesis
    using assms by (auto simp: pack_pixel_def Let_def bytearray_append_def and_one_eq even_iff_mod_2_eq_zero)
qed


subsection \<open>The number of bytes\<close>




subsection \<open>Runs that return\<close>

text \<open>
  The loop overwrites the pixels it has read, so the invariant says that a step leaves
  the pixels of the other coordinates as they were: every pixel is read before it is
  written. \<open>Q\<close> is any set of raw values below 8.
\<close>

lemma pack_row_ok:
  assumes look: "\<forall>x<w. \<exists>i. list_index P (pixels s (x, y)) = Some i \<and> i < length D \<and> i < length M
                    \<and> Q (M ! i)"
    and Q: "\<forall>v. Q v \<longrightarrow> 0 \<le> v \<and> v < 8"
    and pend: "Q (raw_pending s)"
    and bytes: "\<forall>b\<in>set (raw_bytes s). Q (b div 16) \<and> Q (b mod 16)"
  shows "\<exists>s'. pack_row P D M w y s = Inr s' \<and> Q (raw_pending s')
           \<and> (\<forall>b\<in>set (raw_bytes s'). Q (b div 16) \<and> Q (b mod 16))
           \<and> (\<forall>c. snd c \<noteq> y \<longrightarrow> pixels s' c = pixels s c)"
  using look pend bytes
proof (induction w arbitrary: s)
  case 0
  then show ?case by (simp add: pack_row_def)
next
  case (Suc w)
  from Suc.prems(1) obtain i where i: "list_index P (pixels s (w, y)) = Some i"
    "i < length D" "i < length M" "Q (M ! i)"
    by blast
  define s1 where "s1 = (if even w
                then s\<lparr>pixels := (pixels s)((w, y) := D ! i), raw_pending := M ! i\<rparr>
                else s\<lparr>pixels := (pixels s)((w, y) := D ! i),
                       raw_bytes := raw_bytes s @ [16 * raw_pending s + M ! i]\<rparr>)"
  have step: "pack_pixel P D M y w s = Inr s1"
    unfolding s1_def using i Q Suc.prems(2) by (intro pack_pixel_ok) auto
  have px: "pixels s1 = (pixels s)((w, y) := D ! i)"
    by (simp add: s1_def)
  have look1: "\<forall>x<w. \<exists>i. list_index P (pixels s1 (x, y)) = Some i \<and> i < length D \<and> i < length M
                    \<and> Q (M ! i)"
    using Suc.prems(1) by (simp add: px)
  have pend1: "Q (raw_pending s1)"
    using i Suc.prems(2) by (simp add: s1_def)
  have bytes1: "\<forall>b\<in>set (raw_bytes s1). Q (b div 16) \<and> Q (b mod 16)"
    using Suc.prems(2,3) i Q by (auto simp: s1_def)
  from Suc.IH [OF look1 pend1 bytes1] obtain s' where s': "pack_row P D M w y s1 = Inr s'"
    "Q (raw_pending s')" "\<forall>b\<in>set (raw_bytes s'). Q (b div 16) \<and> Q (b mod 16)"
    "\<forall>c. snd c \<noteq> y \<longrightarrow> pixels s' c = pixels s1 c"
    by blast
  have "pack_row P D M (Suc w) y s = Inr s'"
    using step s'(1) by (simp add: pack_row_def)
  moreover have "\<forall>c. snd c \<noteq> y \<longrightarrow> pixels s' c = pixels s c"
    using s'(4) by (auto simp: px)
  ultimately show ?case
    using s'(2,3) by blast
qed

lemma pack_rows_ok:
  assumes look: "\<forall>y<h. \<forall>x<w. \<exists>i. list_index P (pixels s (x, y)) = Some i \<and> i < length D
                    \<and> i < length M \<and> Q (M ! i)"
    and Q: "\<forall>v. Q v \<longrightarrow> 0 \<le> v \<and> v < 8"
    and pend: "Q (raw_pending s)"
    and bytes: "\<forall>b\<in>set (raw_bytes s). Q (b div 16) \<and> Q (b mod 16)"
  shows "\<exists>s'. for_each (rev [0..<h]) (pack_row P D M w) s = Inr s'
           \<and> (\<forall>b\<in>set (raw_bytes s'). Q (b div 16) \<and> Q (b mod 16))"
  using look pend bytes
proof (induction h arbitrary: s)
  case 0
  then show ?case by simp
next
  case (Suc h)
  have "\<forall>x<w. \<exists>i. list_index P (pixels s (x, h)) = Some i \<and> i < length D \<and> i < length M
                    \<and> Q (M ! i)"
    using Suc.prems(1) by simp
  from pack_row_ok [OF this Q Suc.prems(2,3)] obtain s1 where s1:
    "pack_row P D M w h s = Inr s1" "Q (raw_pending s1)"
    "\<forall>b\<in>set (raw_bytes s1). Q (b div 16) \<and> Q (b mod 16)"
    "\<forall>c. snd c \<noteq> h \<longrightarrow> pixels s1 c = pixels s c"
    by blast
  have "\<forall>y<h. \<forall>x<w. \<exists>i. list_index P (pixels s1 (x, y)) = Some i \<and> i < length D
                    \<and> i < length M \<and> Q (M ! i)"
    using Suc.prems(1) s1(4) by simp
  from Suc.IH [OF this s1(2,3)] show ?case
    using s1(1) by simp
qed

(*S4*)


subsection \<open>Runs that fail the assertion\<close>



subsection \<open>Images of palette colours\<close>


lemma list_index_nth:
  "distinct P \<Longrightarrow> i < length P \<Longrightarrow> list_index P (P ! i) = Some i"
proof (induction P arbitrary: i)
  case Nil
  then show ?case by simp
next
  case (Cons c P)
  then show ?case by (cases i) auto
qed


lemma uses_raw_iff:
  "uses_raw P M im v \<longleftrightarrow>
     (\<exists>y<height im. \<exists>x<width im. \<exists>i. list_index P (pixel_data im (x, y)) = Some i \<and> M ! i = v)"
proof -
  have "\<And>c. (case list_index P c of None \<Rightarrow> False | Some i \<Rightarrow> M ! i = v)
          \<longleftrightarrow> (\<exists>i. list_index P c = Some i \<and> M ! i = v)"
    by (simp split: option.split)
  then show ?thesis
    by (simp add: uses_raw_def)
qed

lemma spectra6_look:
  assumes "c \<in> set SPECTRA6_REAL_WORD_RGB"
  shows "\<exists>i. list_index SPECTRA6_REAL_WORD_RGB c = Some i \<and> i < length SPECTRA6_DEVICE_RGB
           \<and> i < length SPECTRA6_DEVICE_INDEX_TO_RAW
           \<and> SPECTRA6_DEVICE_INDEX_TO_RAW ! i \<in> {0, 1, 2, 3, 5, 6}"
  using assms by (auto simp: SPECTRA6_REAL_WORD_RGB_def SPECTRA6_DEVICE_RGB_def
      SPECTRA6_DEVICE_INDEX_TO_RAW_def)


section \<open>The claims about the packing loop\<close>

lemmas spectra6_defs =
  SPECTRA6_REAL_WORD_RGB_def SPECTRA6_DEVICE_RGB_def SPECTRA6_DEVICE_INDEX_TO_RAW_def

lemmas pack_eval =
  pack_def pack_loop_def pack_row_def pack_pixel_def grid_image_def bytearray_append_def upt_rec

lemma pack_grid_2x2_eval:
  "pack SPECTRA6_REAL_WORD_RGB SPECTRA6_DEVICE_RGB SPECTRA6_DEVICE_INDEX_TO_RAW
     (grid_image SPECTRA6_REAL_WORD_RGB 2 2 [[0, 1], [2, 3]]) = Inr [3, 33]"
  by (simp add: pack_eval spectra6_defs)


lemma in_palette_grid_2x2:
  "in_palette SPECTRA6_REAL_WORD_RGB (grid_image SPECTRA6_REAL_WORD_RGB 2 2 [[0, 1], [2, 3]])"
  by (simp add: in_palette_def grid_image_def spectra6_defs numeral_2_eq_2 less_Suc_eq
      all_conj_distrib)

text \<open>
  The loop on every 2x2 grid \<open>[[a, b], [c, d]]\<close>: the first byte pairs the initial
  \<^verbatim>\<open>raw_pending = 0\<close> with the raw value of \<open>d\<close>, the second pairs \<open>c\<close> with \<open>b\<close>, and
  the raw value of \<open>a\<close> stays in \<^verbatim>\<open>raw_pending\<close>, in no byte.
\<close>

lemma pack_grid_2x2:
  assumes "distinct P" "a < length P" "b < length P" "c < length P" "d < length P"
    and "length P \<le> length D" "length P \<le> length M" "\<forall>v\<in>set M. 0 \<le> v \<and> v < 8"
  shows "pack P D M (grid_image P 2 2 [[a, b], [c, d]]) = Inr [M ! d, push_bit 4 (M ! c) OR M ! b]"
proof -
  have idx: "\<And>i. i < length P \<Longrightarrow> list_index P (P ! i) = Some i"
    using assms(1) by (rule list_index_nth)
  have rng: "\<And>i. i < length P \<Longrightarrow> i < length D \<and> i < length M \<and> 0 \<le> M ! i \<and> M ! i < 8"
    using assms(6-8) by simp
  define px0 :: "nat \<times> nat \<Rightarrow> rgb" where "px0 = (\<lambda>(x, y). P ! ([[a, b], [c, d]] ! y ! x))"
  define s0 where "s0 = \<lparr>pixels = px0, raw_pending = 0, raw_bytes = []\<rparr>"
  define s1 where "s1 = s0\<lparr>pixels := (pixels s0)((1, 1) := D ! d),
                       raw_bytes := raw_bytes s0 @ [16 * raw_pending s0 + M ! d]\<rparr>"
  define s2 where "s2 = s1\<lparr>pixels := (pixels s1)((0, 1) := D ! c), raw_pending := M ! c\<rparr>"
  define s3 where "s3 = s2\<lparr>pixels := (pixels s2)((1, 0) := D ! b),
                       raw_bytes := raw_bytes s2 @ [16 * raw_pending s2 + M ! b]\<rparr>"
  define s4 where "s4 = s3\<lparr>pixels := (pixels s3)((0, 0) := D ! a), raw_pending := M ! a\<rparr>"
  have p1: "pack_pixel P D M 1 1 s0 = Inr s1"
    using idx [OF assms(5)] rng [OF assms(5)]
    by (subst pack_pixel_ok [where i = d]) (simp_all add: s0_def s1_def px0_def)
  have p2: "pack_pixel P D M 1 0 s1 = Inr s2"
    using idx [OF assms(4)] rng [OF assms(4)]
    by (subst pack_pixel_ok [where i = c]) (simp_all add: s0_def s1_def s2_def px0_def)
  have p3: "pack_pixel P D M 0 1 s2 = Inr s3"
    using idx [OF assms(3)] rng [OF assms(3)] rng [OF assms(4)]
    by (subst pack_pixel_ok [where i = b]) (simp_all add: s0_def s1_def s2_def s3_def px0_def)
  have p4: "pack_pixel P D M 0 0 s3 = Inr s4"
    using idx [OF assms(2)] rng [OF assms(2)] rng [OF assms(4)]
    by (subst pack_pixel_ok [where i = a]) (simp_all add: s0_def s1_def s2_def s3_def s4_def px0_def)
  have "pack_loop P D M (grid_image P 2 2 [[a, b], [c, d]]) = Inr s4"
    using p1 p2 p3 p4
    by (simp add: pack_loop_def pack_row_def grid_image_def upt_rec s0_def px0_def)
  moreover have "raw_bytes s4 = [M ! d, push_bit 4 (M ! c) OR M ! b]"
    using rng [OF assms(3)] by (simp add: s4_def s3_def s2_def s1_def s0_def nibble_or_add)
  ultimately show ?thesis
    by (simp add: pack_def)
qed

text \<open>
  C1 (the code departs from the claim). The loop is run on the 2x2 grid
  \<open>[[0, 1], [2, 3]]\<close> with the script's own tables, whose raw values for these four
  indices are 0, 1, 2, 3. The claim expects the bytes \<open>(3 << 4) | 2 = 50\<close> and
  \<open>(1 << 4) | 0 = 16\<close>. The loop returns \<open>3\<close> and \<open>(2 << 4) | 1 = 33\<close>: the scan starts
  at the odd column 1, where the body emits a byte at once, so every byte pairs a pixel
  with the pixel scanned before it, the first byte has the initial \<^verbatim>\<open>raw_pending\<close> in
  its high nibble, and the pixel at \<open>(0, 0)\<close> is in no byte.
\<close>

theorem pack_2x2_bytes:
  "pack SPECTRA6_REAL_WORD_RGB SPECTRA6_DEVICE_RGB SPECTRA6_DEVICE_INDEX_TO_RAW
     (grid_image SPECTRA6_REAL_WORD_RGB 2 2 [[0, 1], [2, 3]]) = Inr [3, 33]
   \<and> [3, 33] \<noteq>
       [push_bit 4 (SPECTRA6_DEVICE_INDEX_TO_RAW ! 3) OR SPECTRA6_DEVICE_INDEX_TO_RAW ! 2,
        push_bit 4 (SPECTRA6_DEVICE_INDEX_TO_RAW ! 1) OR SPECTRA6_DEVICE_INDEX_TO_RAW ! 0]"
  using pack_grid_2x2_eval by (simp add: spectra6_defs)







text \<open>
  C9: with the script's three tables, on every image whose pixels are colours of
  \<^verbatim>\<open>SPECTRA6_REAL_WORD_RGB\<close> the loop returns (so the assertion, and every other check,
  passed at every pixel), each raw value looked up is one of 0, 1, 2, 3, 5, 6, and so
  is each nibble of each byte.
\<close>

theorem spectra6_assert_never_fails:
  assumes "in_palette SPECTRA6_REAL_WORD_RGB im"
  shows "(\<exists>bs. pack SPECTRA6_REAL_WORD_RGB SPECTRA6_DEVICE_RGB SPECTRA6_DEVICE_INDEX_TO_RAW im = Inr bs
            \<and> (\<forall>b\<in>set bs. b div 16 \<in> {0, 1, 2, 3, 5, 6} \<and> b mod 16 \<in> {0, 1, 2, 3, 5, 6}))
         \<and> (\<forall>v. uses_raw SPECTRA6_REAL_WORD_RGB SPECTRA6_DEVICE_INDEX_TO_RAW im v
                \<longrightarrow> v \<in> {0, 1, 2, 3, 5, 6})"
proof -
  let ?Q = "\<lambda>v::int. v \<in> {0, 1, 2, 3, 5, 6}"
  have look: "\<forall>y<height im. \<forall>x<width im.
      \<exists>i. list_index SPECTRA6_REAL_WORD_RGB (pixel_data im (x, y)) = Some i
        \<and> i < length SPECTRA6_DEVICE_RGB \<and> i < length SPECTRA6_DEVICE_INDEX_TO_RAW
        \<and> ?Q (SPECTRA6_DEVICE_INDEX_TO_RAW ! i)"
    using assms spectra6_look by (simp add: in_palette_def)
  have Q: "\<forall>v. ?Q v \<longrightarrow> 0 \<le> v \<and> v < 8"
    by auto
  have "\<exists>s'. for_each (rev [0..<height im])
            (pack_row SPECTRA6_REAL_WORD_RGB SPECTRA6_DEVICE_RGB SPECTRA6_DEVICE_INDEX_TO_RAW (width im))
            \<lparr>pixels = pixel_data im, raw_pending = 0, raw_bytes = []\<rparr> = Inr s'
           \<and> (\<forall>b\<in>set (raw_bytes s'). ?Q (b div 16) \<and> ?Q (b mod 16))"
    by (rule pack_rows_ok [where Q = ?Q]) (use look Q in simp_all)
  then have run: "\<exists>bs. pack SPECTRA6_REAL_WORD_RGB SPECTRA6_DEVICE_RGB SPECTRA6_DEVICE_INDEX_TO_RAW im = Inr bs
            \<and> (\<forall>b\<in>set bs. b div 16 \<in> {0, 1, 2, 3, 5, 6} \<and> b mod 16 \<in> {0, 1, 2, 3, 5, 6})"
    by (auto simp: pack_def pack_loop_def)
  have "\<forall>v. uses_raw SPECTRA6_REAL_WORD_RGB SPECTRA6_DEVICE_INDEX_TO_RAW im v
                \<longrightarrow> v \<in> {0, 1, 2, 3, 5, 6}"
  proof (intro allI impI)
    fix v assume "uses_raw SPECTRA6_REAL_WORD_RGB SPECTRA6_DEVICE_INDEX_TO_RAW im v"
    then obtain y x i where yx: "y < height im" "x < width im"
      and i: "list_index SPECTRA6_REAL_WORD_RGB (pixel_data im (x, y)) = Some i"
        "SPECTRA6_DEVICE_INDEX_TO_RAW ! i = v"
      unfolding uses_raw_iff by blast
    from look yx obtain j where "list_index SPECTRA6_REAL_WORD_RGB (pixel_data im (x, y)) = Some j"
      "?Q (SPECTRA6_DEVICE_INDEX_TO_RAW ! j)"
      by blast
    with i show "v \<in> {0, 1, 2, 3, 5, 6}"
      by simp
  qed
  with run show ?thesis
    by blast
qed

theorem spectra6_assert_never_fails_witness:
  "in_palette SPECTRA6_REAL_WORD_RGB (grid_image SPECTRA6_REAL_WORD_RGB 2 2 [[0, 1], [2, 3]])
   \<and> pack SPECTRA6_REAL_WORD_RGB SPECTRA6_DEVICE_RGB SPECTRA6_DEVICE_INDEX_TO_RAW
        (grid_image SPECTRA6_REAL_WORD_RGB 2 2 [[0, 1], [2, 3]]) = Inr [3, 33]
   \<and> (3::int) div 16 \<in> {0, 1, 2, 3, 5, 6} \<and> (33::int) mod 16 \<in> {0, 1, 2, 3, 5, 6}"
proof -
  have h: "in_palette SPECTRA6_REAL_WORD_RGB (grid_image SPECTRA6_REAL_WORD_RGB 2 2 [[0, 1], [2, 3]])"
    by (rule in_palette_grid_2x2)
  from h spectra6_assert_never_fails [OF h] pack_grid_2x2_eval show ?thesis
    by simp
qed

section \<open>Properties of \<^verbatim>\<open>parse_palette\<close>\<close>

subsection \<open>Splitting and stripping\<close>
























section \<open>Properties of the palette table and of the quantiser\<close>

subsection \<open>The nearest colour\<close>

lemma dist2_nonneg: "0 \<le> dist2 v c"
  by (simp add: dist2_def split: prod.splits)

lemma dist2_zero_iff: "dist2 (to_working p) c = 0 \<longleftrightarrow> c = p"
proof -
  obtain r g b where p: "p = (r, g, b)" by (cases p)
  obtain pr pg pb where c: "c = (pr, pg, pb)" by (cases c)
  have "(of_int r - of_int pr :: rat) ^ 2 + (of_int g - of_int pg) ^ 2 + (of_int b - of_int pb) ^ 2 = 0
          \<longleftrightarrow> (of_int r - of_int pr :: rat) = 0 \<and> (of_int g - of_int pg :: rat) = 0
              \<and> (of_int b - of_int pb :: rat) = 0"
    by (simp add: add_nonneg_eq_0_iff)
  then show ?thesis
    by (auto simp: dist2_def to_working_def p c)
qed

lemma nearest_scan_min:
  assumes "P = pre @ cs" "i = length pre" "best < i" "bd = dist2 v (P ! best)"
    and "\<forall>j<i. dist2 v (P ! best) \<le> dist2 v (P ! j)"
    and "\<forall>j<best. dist2 v (P ! best) < dist2 v (P ! j)"
  shows "nearest_scan cs v i best bd < length P
         \<and> (\<forall>j<length P. dist2 v (P ! nearest_scan cs v i best bd) \<le> dist2 v (P ! j))
         \<and> (\<forall>j<nearest_scan cs v i best bd.
               dist2 v (P ! nearest_scan cs v i best bd) < dist2 v (P ! j))"
  using assms
proof (induction cs arbitrary: pre i best bd)
  case Nil
  then show ?case by simp
next
  case (Cons c cs)
  have Pi: "P ! i = c"
    using Cons.prems(1,2) by simp
  have split: "P = (pre @ [c]) @ cs" "Suc i = length (pre @ [c])"
    using Cons.prems(1,2) by simp_all
  show ?case
  proof (cases "dist2 v c < bd")
    case True
    have a: "\<forall>j<Suc i. dist2 v (P ! i) \<le> dist2 v (P ! j)"
    proof (intro allI impI)
      fix j assume "j < Suc i"
      then consider "j < i" | "j = i" by linarith
      then show "dist2 v (P ! i) \<le> dist2 v (P ! j)"
      proof cases
        case 1
        with Cons.prems(5) have "dist2 v (P ! best) \<le> dist2 v (P ! j)" by simp
        with True Cons.prems(4) Pi show ?thesis by simp
      next
        case 2
        then show ?thesis by simp
      qed
    qed
    have b: "\<forall>j<i. dist2 v (P ! i) < dist2 v (P ! j)"
    proof (intro allI impI)
      fix j assume "j < i"
      with Cons.prems(5) have "dist2 v (P ! best) \<le> dist2 v (P ! j)" by simp
      with True Cons.prems(4) Pi show "dist2 v (P ! i) < dist2 v (P ! j)" by simp
    qed
    from Cons.IH [OF split _ _ a b, of "dist2 v c"] True Pi show ?thesis
      by simp
  next
    case False
    have a: "\<forall>j<Suc i. dist2 v (P ! best) \<le> dist2 v (P ! j)"
    proof (intro allI impI)
      fix j assume "j < Suc i"
      then consider "j < i" | "j = i" by linarith
      then show "dist2 v (P ! best) \<le> dist2 v (P ! j)"
      proof cases
        case 1
        with Cons.prems(5) show ?thesis by simp
      next
        case 2
        with False Cons.prems(4) Pi show ?thesis by simp
      qed
    qed
    from Cons.prems(3) have "best < Suc i" by simp
    from Cons.IH [OF split this Cons.prems(4) a Cons.prems(6)] False show ?thesis
      by simp
  qed
qed

lemma nearest_index_min:
  assumes "P \<noteq> []"
  shows "nearest_index P v < length P
         \<and> (\<forall>j<length P. dist2 v (P ! nearest_index P v) \<le> dist2 v (P ! j))
         \<and> (\<forall>j<nearest_index P v. dist2 v (P ! nearest_index P v) < dist2 v (P ! j))"
proof -
  from assms obtain c cs where P: "P = c # cs"
    by (cases P) auto
  have "nearest_scan cs v 1 0 (dist2 v c) < length P
         \<and> (\<forall>j<length P. dist2 v (P ! nearest_scan cs v 1 0 (dist2 v c)) \<le> dist2 v (P ! j))
         \<and> (\<forall>j<nearest_scan cs v 1 0 (dist2 v c).
               dist2 v (P ! nearest_scan cs v 1 0 (dist2 v c)) < dist2 v (P ! j))"
    by (rule nearest_scan_min [where pre = "[c]"]) (simp_all add: P)
  then show ?thesis
    by (simp add: nearest_index_def P)
qed

lemma list_index_first:
  "list_index P c = Some i \<longleftrightarrow> i < length P \<and> P ! i = c \<and> (\<forall>j<i. P ! j \<noteq> c)"
proof (induction P arbitrary: i)
  case Nil
  then show ?case by simp
next
  case (Cons p P)
  show ?case
  proof (cases "p = c")
    case True
    then show ?thesis by (cases i) auto
  next
    case False
    show ?thesis
    proof (cases i)
      case 0
      with False show ?thesis by auto
    next
      case (Suc k)
      have "(\<forall>j<Suc k. (p # P) ! j \<noteq> c) \<longleftrightarrow> (\<forall>j<k. P ! j \<noteq> c)"
        using False by (auto simp: less_Suc_eq_0_disj)
      with Cons.IH [of k] False Suc show ?thesis
        by auto
    qed
  qed
qed

text \<open>A colour of the palette is its own nearest colour, at its first position.\<close>

lemma nearest_index_own:
  assumes "p \<in> set P"
  shows "list_index P p = Some (nearest_index P (to_working p))"
proof -
  let ?r = "nearest_index P (to_working p)"
  from assms have ne: "P \<noteq> []" by auto
  from assms obtain k where k: "k < length P" "P ! k = p"
    by (auto simp: in_set_conv_nth)
  from nearest_index_min [OF ne, of "to_working p"]
  have r: "?r < length P"
    and le: "\<forall>j<length P. dist2 (to_working p) (P ! ?r) \<le> dist2 (to_working p) (P ! j)"
    and lt: "\<forall>j<?r. dist2 (to_working p) (P ! ?r) < dist2 (to_working p) (P ! j)"
    by simp_all
  from le k have "dist2 (to_working p) (P ! ?r) \<le> 0"
    by (metis dist2_zero_iff)
  with dist2_nonneg [of "to_working p" "P ! ?r"] have zero: "dist2 (to_working p) (P ! ?r) = 0"
    by simp
  then have own: "P ! ?r = p"
    by (simp add: dist2_zero_iff)
  have "\<forall>j<?r. P ! j \<noteq> p"
  proof (intro allI impI)
    fix j assume "j < ?r"
    with lt zero have "0 < dist2 (to_working p) (P ! j)" by simp
    then show "P ! j \<noteq> p"
      using dist2_zero_iff [of p "P ! j"] by auto
  qed
  with r own show ?thesis
    by (simp add: list_index_first)
qed

lemma quantize_pixel_no_dither:
  "quantize_pixel P False w h y x s =
     s\<lparr>indices := (indices s)((x, y) := nearest_index P (work s (x, y)))\<rparr>"
  by (simp add: quantize_pixel_def Let_def)

lemma quantize_row_no_dither:
  "work (fold (quantize_pixel P False w h y) xs s) = work s
   \<and> (\<forall>x' y'. indices (fold (quantize_pixel P False w h y) xs s) (x', y') =
            (if y' = y \<and> x' \<in> set xs then nearest_index P (work s (x', y'))
             else indices s (x', y')))"
proof (induction xs arbitrary: s)
  case Nil
  then show ?case by simp
next
  case (Cons x xs)
  let ?s1 = "quantize_pixel P False w h y x s"
  have w1: "work ?s1 = work s"
    and i1: "indices ?s1 = (indices s)((x, y) := nearest_index P (work s (x, y)))"
    by (simp_all add: quantize_pixel_no_dither)
  from Cons.IH [of ?s1] show ?case
    by (auto simp: w1 i1)
qed

lemma quantize_rows_no_dither:
  "work (fold (\<lambda>y. fold (quantize_pixel P False w h y) xs) ys s) = work s
   \<and> (\<forall>x' y'. indices (fold (\<lambda>y. fold (quantize_pixel P False w h y) xs) ys s) (x', y') =
            (if y' \<in> set ys \<and> x' \<in> set xs then nearest_index P (work s (x', y'))
             else indices s (x', y')))"
proof (induction ys arbitrary: s)
  case Nil
  then show ?case by simp
next
  case (Cons y ys)
  let ?s1 = "fold (quantize_pixel P False w h y) xs s"
  from quantize_row_no_dither [of P w h y xs s]
  have w1: "work ?s1 = work s"
    and i1: "\<And>x' y'. indices ?s1 (x', y') =
            (if y' = y \<and> x' \<in> set xs then nearest_index P (work s (x', y'))
             else indices s (x', y'))"
    by simp_all
  from Cons.IH [of ?s1] show ?case
    by (auto simp: w1 i1)
qed

lemma quantize_no_dither_cells:
  assumes "x < width im" "y < height im"
  shows "cells (fst (quantize im P False)) (x, y) = nearest_index P (to_working (pixel_data im (x, y)))"
    and "pixel_data (snd (quantize im P False)) (x, y)
           = P ! nearest_index P (to_working (pixel_data im (x, y)))"
  using assms by (simp_all add: quantize_def Let_def quantize_rows_no_dither)

lemma quantize_size:
  "grid_width (fst (quantize im P d)) = width im" "grid_height (fst (quantize im P d)) = height im"
  "width (snd (quantize im P d)) = width im" "height (snd (quantize im P d)) = height im"
  by (simp_all add: quantize_def Let_def)

subsection \<open>The palette table\<close>

lemma putpalette_flatten: "putpalette (flatten cs) = cs"
  by (induction cs) (auto simp: flatten_def)

lemma length_flatten: "length (flatten cs) = 3 * length cs"
  by (induction cs) (auto simp: flatten_def)

lemma build_palette_table_empty: "build_palette_table [] = Inl IndexError"
  by (simp add: build_palette_table_def)

lemma build_palette_table_short:
  assumes "colors \<noteq> []" "length colors < 256"
  shows "build_palette_table colors
           = Inr (flatten (colors @ replicate (256 - length colors) (hd colors)))"
  using assms by (cases colors) (simp_all add: build_palette_table_def Let_def length_flatten)

lemma build_palette_table_long:
  assumes "256 < length colors"
  shows "build_palette_table colors = Inr (flatten (take 256 colors))"
  using assms by (simp add: build_palette_table_def Let_def length_flatten)

lemma build_palette_table_exact:
  assumes "length colors = 256"
  shows "build_palette_table colors = Inr (flatten colors)"
  using assms by (simp add: build_palette_table_def Let_def length_flatten)

lemma nearest_index_padded:
  assumes "colors \<noteq> []"
  shows "nearest_index (colors @ replicate k (hd colors)) v < length colors"
proof (rule ccontr)
  let ?T = "colors @ replicate k (hd colors)"
  let ?r = "nearest_index ?T v"
  assume "\<not> ?r < length colors"
  then have ge: "length colors \<le> ?r" by simp
  from assms have ne: "?T \<noteq> []" by simp
  from nearest_index_min [OF ne, of v]
  have r: "?r < length ?T" and lt: "\<forall>j<?r. dist2 v (?T ! ?r) < dist2 v (?T ! j)"
    by simp_all
  from ge r have "?T ! ?r = hd colors"
    by (simp add: nth_append)
  moreover from assms have "?T ! 0 = hd colors"
    by (cases colors) simp_all
  moreover from assms ge have "0 < ?r"
    by (cases colors) auto
  ultimately show False
    using lt by fastforce
qed

lemma flatten_append: "flatten (xs @ ys) = flatten xs @ flatten ys"
  by (simp add: flatten_def)

lemma flatten_replicate:
  "flatten (replicate n c) = concat (replicate n (case c of (r, g, b) \<Rightarrow> [r, g, b]))"
  by (induction n) (simp_all add: flatten_def)

lemma spectra6_palette_table:
  "build_palette_table SPECTRA6_REAL_WORD_RGB = Inr spectra6_palette"
proof -
  have "SPECTRA6_REAL_WORD_RGB \<noteq> []" "length SPECTRA6_REAL_WORD_RGB < 256"
    "256 - length SPECTRA6_REAL_WORD_RGB = 250" "hd SPECTRA6_REAL_WORD_RGB = SPECTRA6_REAL_WORD_RGB ! 0"
    by (simp_all add: SPECTRA6_REAL_WORD_RGB_def)
  then show ?thesis
    by (simp add: build_palette_table_short spectra6_palette_def flatten_append flatten_replicate)
qed

text \<open>
  C4: for a palette that is not empty (a palette has at least one entry,
  \<^verbatim>\<open>parse_palette\<close> returns no empty list, and on the empty list the function raises
  IndexError), \<^verbatim>\<open>build_palette_table\<close> fills a table of
  fewer than 256 colours up to 256 with copies of the first colour, and the nearest
  colour search on the table it built then never chooses one of the copies; it cuts a
  longer list to its first 256 colours. The palette of
  \<^verbatim>\<open>epd-dither-resize-spectra6.py\<close> is the table built for its six colours.
\<close>

theorem build_palette_table_pads_with_first:
  assumes "colors \<noteq> []"
  shows "(length colors < 256 \<longrightarrow>
            build_palette_table colors
              = Inr (flatten (colors @ replicate (256 - length colors) (hd colors)))
            \<and> (\<forall>v. nearest_index
                      (putpalette (flatten (colors @ replicate (256 - length colors) (hd colors)))) v
                    < length colors))
         \<and> (256 < length colors \<longrightarrow> build_palette_table colors = Inr (flatten (take 256 colors)))
         \<and> build_palette_table SPECTRA6_REAL_WORD_RGB = Inr spectra6_palette"
  using assms
  by (simp add: build_palette_table_short build_palette_table_long putpalette_flatten
      nearest_index_padded spectra6_palette_table)

theorem build_palette_table_pads_with_first_witness:
  "[(0, 0, 0), (255, 255, 255)] \<noteq> ([] :: rgb list)
   \<and> length [(0, 0, 0), (255, 255, 255) :: rgb] < 256
   \<and> build_palette_table [(0, 0, 0), (255, 255, 255)]
       = Inr (flatten ([(0, 0, 0), (255, 255, 255)] @ replicate 254 (0, 0, 0)))
   \<and> nearest_index
         (putpalette (flatten ([(0, 0, 0), (255, 255, 255)] @ replicate 254 (0, 0, 0)))) (1, 2, 3)
       < 2"
proof -
  have h: "[(0, 0, 0), (255, 255, 255)] \<noteq> ([] :: rgb list)"
    by simp
  from build_palette_table_pads_with_first [OF h] show ?thesis
    by (simp add: numeral_2_eq_2)
qed

subsection \<open>Quantising without dithering\<close>

text \<open>
  C7: without dithering, on an image whose pixels are all colours of the palette, the
  quantiser keeps the size, gives every pixel the index at which \<^verbatim>\<open>list.index\<close> finds
  its colour in the palette (the first position of that colour), and the RGB image it
  returns has every pixel of the input.
\<close>

theorem quantize_no_dither_idempotent:
  assumes "in_palette P im"
  shows "grid_width (fst (quantize im P False)) = width im
         \<and> grid_height (fst (quantize im P False)) = height im
         \<and> width (snd (quantize im P False)) = width im
         \<and> height (snd (quantize im P False)) = height im
         \<and> (\<forall>y<height im. \<forall>x<width im.
               list_index P (pixel_data im (x, y)) = Some (cells (fst (quantize im P False)) (x, y))
               \<and> pixel_data (snd (quantize im P False)) (x, y) = pixel_data im (x, y))"
proof -
  have "list_index P (pixel_data im (x, y)) = Some (cells (fst (quantize im P False)) (x, y))
        \<and> pixel_data (snd (quantize im P False)) (x, y) = pixel_data im (x, y)"
    if "y < height im" "x < width im" for x y
  proof -
    from assms that have mem: "pixel_data im (x, y) \<in> set P"
      by (simp add: in_palette_def)
    from nearest_index_own [OF mem]
    have own: "list_index P (pixel_data im (x, y))
                 = Some (nearest_index P (to_working (pixel_data im (x, y))))" .
    then have "P ! nearest_index P (to_working (pixel_data im (x, y))) = pixel_data im (x, y)"
      by (simp add: list_index_first)
    with own that show ?thesis
      by (simp add: quantize_no_dither_cells)
  qed
  then show ?thesis
    by (simp add: quantize_size)
qed

theorem quantize_no_dither_idempotent_witness:
  "in_palette [(0, 0, 0), (255, 255, 255)] \<lparr>width = 1, height = 2, pixel_data = (\<lambda>c. (0, 0, 0))\<rparr>
   \<and> cells (fst (quantize \<lparr>width = 1, height = 2, pixel_data = (\<lambda>c. (0, 0, 0))\<rparr>
                    [(0, 0, 0), (255, 255, 255)] False)) (0, 1) = 0
   \<and> pixel_data (snd (quantize \<lparr>width = 1, height = 2, pixel_data = (\<lambda>c. (0, 0, 0))\<rparr>
                    [(0, 0, 0), (255, 255, 255)] False)) (0, 1) = (0, 0, 0)"
proof -
  let ?P = "[(0, 0, 0), (255, 255, 255)] :: rgb list"
  let ?im = "\<lparr>width = 1, height = 2, pixel_data = (\<lambda>c. (0, 0, 0))\<rparr> :: image"
  have h: "in_palette ?P ?im"
    by (simp add: in_palette_def)
  from quantize_no_dither_idempotent [OF h]
  have "list_index ?P (pixel_data ?im (0, 1)) = Some (cells (fst (quantize ?im ?P False)) (0, 1))
        \<and> pixel_data (snd (quantize ?im ?P False)) (0, 1) = pixel_data ?im (0, 1)"
    by simp
  with h show ?thesis
    by simp
qed

section \<open>Properties of the geometry and of the whole conversion\<close>

subsection \<open>Sizes\<close>

lemma rotate_180_size [simp]: "width (rotate_180 im) = width im" "height (rotate_180 im) = height im"
  by (simp_all add: rotate_180_def)

lemma rotate_expand_size [simp]:
  "width (rotate_expand a im) = height im" "height (rotate_expand a im) = width im"
  by (simp_all add: rotate_expand_def)

lemma paste_size [simp]: "width (paste dst src off) = width dst" "height (paste dst src off) = height dst"
  by (simp_all add: paste_def split: prod.splits)

lemma new_image_size [simp]: "width (new_image (w, h) c) = w" "height (new_image (w, h) c) = h"
  by (simp_all add: new_image_def)

lemma resize_size [simp]: "width (resize rs im (w, h)) = w" "height (resize rs im (w, h)) = h"
  by (simp_all add: resize_def)

lemma pad_size [simp]: "width (pad rs im (w, h) c) = w" "height (pad rs im (w, h) c) = h"
  by (simp_all add: pad_def split: prod.splits)


lemma cut_fitting_Inr:
  assumes "0 < h" "0 < tw" "0 < th"
  shows "\<exists>padding. cut_fitting w h tw th = Inr (padding, (0, 0, int w, int h))"
  using assms by (simp add: cut_fitting_def Let_def)




subsection \<open>RGB triplets\<close>
















subsection \<open>The scenario of the black image\<close>

lemma trunc_of_int [simp]: "trunc (of_int k) = k"
  by (simp add: trunc_def)

lemma trunc_of_nat [simp]: "trunc (of_nat n) = int n"
  using trunc_of_int [of "int n"] by simp

lemma trunc_numeral [simp]: "trunc 1 = 1" "trunc (numeral n) = numeral n"
  by (simp_all add: trunc_def)








subsection \<open>Mode cut\<close>

lemma trunc_nonneg: "0 \<le> q \<Longrightarrow> 0 \<le> trunc q"
  by (simp add: trunc_def)

lemma trunc_nonpos: "q \<le> 0 \<Longrightarrow> trunc q \<le> 0"
  by (auto simp: trunc_def ceiling_le_zero)

lemma trunc_zero [simp]: "trunc 0 = 0"
  by (simp add: trunc_def)

text \<open>The amount that is missing on one side: not negative, and zero at equal ratios.\<close>

lemma missing_nonneg:
  assumes "0 < b" "a * b \<le> c"
  shows "0 \<le> trunc (of_nat c / of_nat b - of_nat a)"
proof -
  have "(of_nat a :: rat) * of_nat b \<le> of_nat c"
    using assms(2) by (metis of_nat_mult of_nat_le_iff)
  then have "(of_nat a :: rat) \<le> of_nat c / of_nat b"
    using assms(1) by (simp add: pos_le_divide_eq)
  then show ?thesis
    by (intro trunc_nonneg) simp
qed

lemma missing_zero:
  assumes "0 < b" "a * b = c"
  shows "trunc (of_nat c / of_nat b - of_nat a) = 0"
proof -
  have "(of_nat c :: rat) / of_nat b = of_nat a"
    using assms by (simp add: nonzero_divide_eq_eq flip: of_nat_mult)
  then show ?thesis
    by simp
qed

lemma excess_nonpos:
  assumes "0 < b" "c \<le> a * b"
  shows "trunc (of_nat c / of_nat b - of_nat a) \<le> 0"
proof -
  have "(of_nat c :: rat) \<le> of_nat a * of_nat b"
    using assms(2) by (metis of_nat_mult of_nat_le_iff)
  then have "(of_nat c :: rat) / of_nat b \<le> of_nat a"
    using assms(1) by (simp add: pos_divide_le_eq)
  then show ?thesis
    by (intro trunc_nonpos) simp
qed

lemma pad_delta_props:
  assumes "0 < tw" "0 < th" "pad_delta w h tw th = (dw, dh)"
  shows "0 \<le> dw" "0 \<le> dh" "tw * h \<le> w * th \<Longrightarrow> dw = 0" "w * th \<le> tw * h \<Longrightarrow> dh = 0"
proof -
  show "0 \<le> dw"
    using assms missing_nonneg [of th w "h * tw"]
    by (auto simp: pad_delta_def mult.commute split: if_splits)
  show "0 \<le> dh"
    using assms missing_nonneg [of tw h "w * th"]
    by (auto simp: pad_delta_def mult.commute split: if_splits)
  show "dw = 0" if "tw * h \<le> w * th"
    using assms that by (simp add: pad_delta_def)
  show "dh = 0" if "w * th \<le> tw * h"
  proof (cases "tw * h \<le> w * th")
    case True
    with that have "h * tw = w * th"
      by (simp add: mult.commute)
    from missing_zero [OF assms(1) this] True assms(3) show ?thesis
      by (simp add: pad_delta_def)
  next
    case False
    with assms(3) show ?thesis
      by (simp add: pad_delta_def)
  qed
qed

lemma add_border_pixels:
  "pixel_data (add_border im (l, u, r, b) c) (x, y) =
     (if l \<le> int x \<and> int x < l + int (width im) \<and> u \<le> int y \<and> int y < u + int (height im)
      then pixel_data im (nat (int x - l), nat (int y - u)) else c)"
  by (auto simp: add_border_def paste_def new_image_def Let_def)

lemma add_border_size:
  "width (add_border im (l, u, r, b) c) = nat (int (width im) + l + r)"
  "height (add_border im (l, u, r, b) c) = nat (int (height im) + u + b)"
  by (simp_all add: add_border_def)

lemma crop_whole: "crop im (0, 0, int (width im), int (height im)) = (im :: image)"
  by (cases im) (simp add: crop_def)

lemma fit_cut_pad:
  assumes "0 < height im" "0 < tw" "0 < th"
  shows "fit_cut rs im (width im) (height im) tw th = Inr (pad rs im (tw, th) (255, 255, 255))"
proof -
  from cut_fitting_Inr [OF assms] obtain padding
    where "cut_fitting (width im) (height im) tw th
             = Inr (padding, (0, 0, int (width im), int (height im)))"
    by blast
  then show ?thesis
    by (simp add: fit_cut_def crop_whole)
qed

text \<open>The tuple of the script: what it holds, and that it is never positive.\<close>

lemma cut_fitting_padding:
  assumes "0 < h" "0 < tw" "0 < th"
  shows "\<exists>delta\<le>0. cut_fitting w h tw th =
           Inr (if tw * h \<le> w * th then (delta div 2, 0, delta - delta div 2, 0)
                else (0, delta div 2, 0, delta - delta div 2),
                (0, 0, int w, int h))
           \<and> (tw * h = w * th \<longrightarrow> delta = 0)"
proof (cases "tw * h \<le> w * th")
  case True
  have cmp: "(of_nat tw / of_nat th :: rat) \<le> of_nat w / of_nat h"
    using assms True by (simp add: field_simps flip: of_nat_mult)
  let ?d = "trunc (of_nat (h * tw) / of_nat th - of_nat w)"
  have "?d \<le> 0"
    using True assms(3) by (intro excess_nonpos) (simp_all add: mult.commute)
  moreover have "tw * h = w * th \<longrightarrow> ?d = 0"
    using missing_zero [of th w "h * tw"] assms(3) by (auto simp: mult.commute)
  ultimately show ?thesis
    using True assms cmp by (intro exI [of _ ?d]) (simp add: cut_fitting_def Let_def)
next
  case False
  have cmp: "\<not> (of_nat tw / of_nat th :: rat) \<le> of_nat w / of_nat h"
    using assms False by (simp add: field_simps flip: of_nat_mult)
  let ?d = "trunc (of_nat (w * th) / of_nat tw - of_nat h)"
  have "?d \<le> 0"
    using False assms(2) by (intro excess_nonpos) (simp_all add: mult.commute)
  then show ?thesis
    using False assms cmp by (intro exI [of _ ?d]) (simp add: cut_fitting_def Let_def)
qed

text \<open>
  C6: in mode \<open>cut\<close> the script hands the whole image, not cropped, to the padding.
  The padding puts the image on a white canvas: nothing is added on the side that
  is long enough for the target's aspect ratio, and the amount \<open>delta\<close> that is missing on
  the other side is not negative and is split into \<open>delta div 2\<close> before the image and
  \<open>delta - delta div 2\<close> after it; inside the canvas every pixel of the image is kept,
  outside it is white. When the two aspect ratios are equal both amounts are zero, so
  there is no border. The canvas is then resized to the target.
\<close>

theorem cut_padding_split:
  assumes "0 < width im" "0 < height im" "0 < tw" "0 < th"
    and "pad_delta (width im) (height im) tw th = (dw, dh)"
    and "padded = add_border im (dw div 2, dh div 2, dw - dw div 2, dh - dh div 2) (255, 255, 255)"
  shows "fit_cut rs im (width im) (height im) tw th = Inr (resize rs padded (tw, th))
         \<and> 0 \<le> dw \<and> 0 \<le> dh
         \<and> (tw * height im \<le> width im * th \<longrightarrow> dw = 0)
         \<and> (width im * th \<le> tw * height im \<longrightarrow> dh = 0)
         \<and> (tw * height im = width im * th \<longrightarrow> dw = 0 \<and> dh = 0)
         \<and> int (width padded) = int (width im) + dw
         \<and> int (height padded) = int (height im) + dh
         \<and> (\<forall>x y. pixel_data padded (x, y) =
                (if dw div 2 \<le> int x \<and> int x < dw div 2 + int (width im)
                    \<and> dh div 2 \<le> int y \<and> int y < dh div 2 + int (height im)
                 then pixel_data im (nat (int x - dw div 2), nat (int y - dh div 2))
                 else (255, 255, 255)))"
proof -
  note d = pad_delta_props [OF assms(3,4,5)]
  have "fit_cut rs im (width im) (height im) tw th = Inr (resize rs padded (tw, th))"
    using assms(2-6) by (simp add: fit_cut_pad pad_def)
  moreover have "int (width padded) = int (width im) + dw" "int (height padded) = int (height im) + dh"
    using d(1,2) by (simp_all add: assms(6) add_border_size)
  moreover have "\<forall>x y. pixel_data padded (x, y) =
                (if dw div 2 \<le> int x \<and> int x < dw div 2 + int (width im)
                    \<and> dh div 2 \<le> int y \<and> int y < dh div 2 + int (height im)
                 then pixel_data im (nat (int x - dw div 2), nat (int y - dh div 2))
                 else (255, 255, 255))"
    by (simp only: assms(6) add_border_pixels) simp
  ultimately show ?thesis
    using d by simp
qed

theorem cut_padding_split_witness:
  "pad_delta 2 1 2 4 = (0, 3)
   \<and> fit_cut (\<lambda>im w h. pixel_data im) \<lparr>width = 2, height = 1, pixel_data = (\<lambda>c. (0, 0, 0))\<rparr> 2 1 2 4
       = Inr (resize (\<lambda>im w h. pixel_data im)
                (add_border \<lparr>width = 2, height = 1, pixel_data = (\<lambda>c. (0, 0, 0))\<rparr> (0, 1, 0, 2)
                   (255, 255, 255)) (2, 4))
   \<and> height (add_border \<lparr>width = 2, height = 1, pixel_data = (\<lambda>c. (0, 0, 0))\<rparr> (0, 1, 0, 2)
                (255, 255, 255)) = 4"
proof -
  let ?im = "\<lparr>width = 2, height = 1, pixel_data = (\<lambda>c. (0, 0, 0))\<rparr> :: image"
  have d: "pad_delta (width ?im) (height ?im) 2 4 = (0, 3)"
    by (simp add: pad_delta_def trunc_def)
  have p: "add_border ?im (0, 1, 0, 2) (255, 255, 255)
             = add_border ?im (0 div 2, 3 div 2, 0 - 0 div 2, 3 - 3 div 2) (255, 255, 255)"
    by simp
  have h: "0 < width ?im" "0 < height ?im" "0 < (2 :: nat)" "0 < (4 :: nat)"
    by simp_all
  from cut_padding_split [OF h d p, of "\<lambda>im w h. pixel_data im"] d show ?thesis
    by simp
qed

end
